theory Spec2Isabelle
  imports Main "HOL-Library.Word"
begin

section \<open>The SalaryCompare contract\<close>

text \<open>
  A shallow embedding of the Solidity contract \<^verbatim>\<open>SalaryCompare\<close>: its four storage
  mappings, its external functions and the two loops of \<^verbatim>\<open>batchCompareSalaries\<close>.

  Solidity values: an \<^verbatim>\<open>address\<close> is a 160-bit word, a \<^verbatim>\<open>uint256\<close> a 256-bit word;
  \<^verbatim>\<open>euint32\<close>, \<^verbatim>\<open>ebool\<close> and \<^verbatim>\<open>externalEuint32\<close> are 32-byte ciphertext handles.
  A mapping is a total function: a key never written reads as the zero value.
\<close>

type_synonym address = "160 word"
type_synonym uint256 = "256 word"
type_synonym bytes32 = "256 word"
type_synonym euint32 = bytes32
type_synonym ebool = bytes32
type_synonym externalEuint32 = bytes32
type_synonym bytes = "8 word list"

datatype event =
    SalarySubmitted address uint256
  | SalaryCompared address address uint256
  | SalaryUpdated address uint256

text \<open>
  The storage of the contract, together with the two pieces of chain state its functions
  write to: the access-control list of the encryption library (the pairs of a handle and
  an account allowed on it) and the event log.
\<close>

record contract =
  salaries :: "address \<Rightarrow> euint32"
  hasSalary :: "address \<Rightarrow> bool"
  comparisonResults :: "address \<Rightarrow> address \<Rightarrow> ebool"
  comparisonPerformed :: "address \<Rightarrow> address \<Rightarrow> bool"
  acl :: "(bytes32 \<times> address) set"
  events :: "event list"

text \<open>
  What a call sees of its surroundings: the contract's own address, the block timestamp,
  and the two operations of the encryption library that compute handles. The library is
  not part of the repository; its operations are parameters here, and every theorem below
  holds for all of them. \<open>FHE_fromExternal\<close> is \<open>None\<close> where the library rejects the
  input proof, which reverts the call. Following section 6 of the specification, the
  comparison \<open>FHE_gt\<close> returns a handle and does not fail.
\<close>

record env =
  this_address :: address
  block_timestamp :: uint256
  FHE_fromExternal :: "externalEuint32 \<Rightarrow> bytes \<Rightarrow> euint32 option"
  FHE_gt :: "euint32 \<Rightarrow> euint32 \<Rightarrow> ebool"

text \<open>
  A failed \<^verbatim>\<open>require\<close> reverts the call. The reasons, named as the specification names
  them, with the messages of the source:
  \<^item> \<open>NotFound CallerValue\<close>: "You have not submitted a salary yet" and
    "You must submit a salary first before updating it";
  \<^item> \<open>NotFound OtherValue\<close>: "The other user has not submitted a salary yet" and
    "One of the other users has not submitted a salary yet";
  \<^item> \<open>NotFound ComparisonRecord\<close>: "Comparison has not been performed yet";
  \<^item> \<open>SelfComparison\<close>: "Cannot compare salary with yourself" and
    "Cannot compare with yourself";
  \<^item> \<open>AlreadyPerformed\<close>: "Comparison already performed between these users";
  \<^item> \<open>Unauthorized\<close>: "You can only view comparisons you are part of";
  \<^item> \<open>EmptyBatch\<close>: "Must provide at least one user to compare with";
  \<^item> \<open>BatchTooLarge\<close>: "Cannot compare with more than 10 users at once";
  \<^item> \<open>DuplicateInBatch\<close>: "Duplicate addresses not allowed in batch comparison";
  \<^item> \<open>InvalidCiphertext\<close>: the library rejected the input proof.
\<close>

datatype missing = CallerValue | OtherValue | ComparisonRecord

datatype error =
    InvalidCiphertext
  | NotFound missing
  | SelfComparison
  | AlreadyPerformed
  | Unauthorized
  | EmptyBatch
  | BatchTooLarge
  | DuplicateInBatch

definition VERSION :: string where
  "VERSION = ''1.0.0''"

definition MAX_BATCH_SIZE :: nat where
  "MAX_BATCH_SIZE = 10"

subsection \<open>The access-control list and the event log\<close>

text \<open>
  Modelled from the spec: the library's \<^verbatim>\<open>FHE.allow\<close> and \<^verbatim>\<open>FHE.allowThis\<close> are not in
  the repository. Following section 4.2 of the specification, a grant adds the pair to the
  relation, and granting twice changes nothing; \<^verbatim>\<open>allowThis\<close> grants to the contract's
  own address.
\<close>

definition FHE_allow :: "bytes32 \<Rightarrow> address \<Rightarrow> contract \<Rightarrow> contract" where
  "FHE_allow h a s = s\<lparr>acl := insert (h, a) (acl s)\<rparr>"

definition FHE_allowThis :: "env \<Rightarrow> bytes32 \<Rightarrow> contract \<Rightarrow> contract" where
  "FHE_allowThis e h s = FHE_allow h (this_address e) s"

definition emit :: "event \<Rightarrow> contract \<Rightarrow> contract" where
  "emit ev s = s\<lparr>events := events s @ [ev]\<rparr>"

subsection \<open>The external functions\<close>

text \<open>
  Each function takes the environment, the storage before the call and \<^verbatim>\<open>msg.sender\<close>.
  A function that writes returns the storage after it, or the reason of the revert; a
  \<^verbatim>\<open>view\<close> function returns its value.
\<close>

definition getContractInfo :: "contract \<Rightarrow> string \<times> uint256 \<times> uint256" where
  "getContractInfo s =
     (let userCount = 0; comparisonCount = 0
      in (VERSION, userCount, comparisonCount))"

definition storeSalary :: "env \<Rightarrow> contract \<Rightarrow> address \<Rightarrow> euint32 \<Rightarrow> contract" where
  "storeSalary e s sender encryptedSalary =
     (let s1 = s\<lparr>salaries := (salaries s)(sender := encryptedSalary)\<rparr>;
          s2 = s1\<lparr>hasSalary := (hasSalary s1)(sender := True)\<rparr>;
          s3 = FHE_allowThis e encryptedSalary s2
      in FHE_allow encryptedSalary sender s3)"

definition submitSalary ::
  "env \<Rightarrow> contract \<Rightarrow> address \<Rightarrow> externalEuint32 \<Rightarrow> bytes \<Rightarrow> error + contract" where
  "submitSalary e s sender inputEuint32 inputProof =
     (case FHE_fromExternal e inputEuint32 inputProof of
        None \<Rightarrow> Inl InvalidCiphertext
      | Some encryptedSalary \<Rightarrow>
          Inr (emit (SalarySubmitted sender (block_timestamp e))
                 (storeSalary e s sender encryptedSalary)))"

definition getMySalary :: "contract \<Rightarrow> address \<Rightarrow> error + euint32" where
  "getMySalary s sender =
     (if \<not> hasSalary s sender then Inl (NotFound CallerValue)
      else Inr (salaries s sender))"

text \<open>
  The comparison itself, written twice in the source with the same text (lines 84 to 95
  of \<^verbatim>\<open>compareSalaries\<close> and 164 to 175 of \<^verbatim>\<open>batchCompareSalaries\<close>): compute the
  encrypted result, store it, mark the ordered pair, grant the three accounts, emit.
\<close>

definition performComparison :: "env \<Rightarrow> contract \<Rightarrow> address \<Rightarrow> address \<Rightarrow> contract" where
  "performComparison e s sender otherUser =
     (let isGreater = FHE_gt e (salaries s sender) (salaries s otherUser);
          s1 = s\<lparr>comparisonResults :=
                 (comparisonResults s)
                   (sender := (comparisonResults s sender)(otherUser := isGreater))\<rparr>;
          s2 = s1\<lparr>comparisonPerformed :=
                 (comparisonPerformed s1)
                   (sender := (comparisonPerformed s1 sender)(otherUser := True))\<rparr>;
          s3 = FHE_allowThis e isGreater s2;
          s4 = FHE_allow isGreater sender s3;
          s5 = FHE_allow isGreater otherUser s4
      in emit (SalaryCompared sender otherUser (block_timestamp e)) s5)"

definition compareSalaries :: "env \<Rightarrow> contract \<Rightarrow> address \<Rightarrow> address \<Rightarrow> error + contract" where
  "compareSalaries e s sender otherUser =
     (if sender = otherUser then Inl SelfComparison
      else if \<not> hasSalary s sender then Inl (NotFound CallerValue)
      else if \<not> hasSalary s otherUser then Inl (NotFound OtherValue)
      else if comparisonPerformed s sender otherUser then Inl AlreadyPerformed
      else Inr (performComparison e s sender otherUser))"

definition getComparisonResult ::
  "contract \<Rightarrow> address \<Rightarrow> address \<Rightarrow> address \<Rightarrow> error + ebool" where
  "getComparisonResult s sender user1 user2 =
     (if \<not> (sender = user1 \<or> sender = user2) then Inl Unauthorized
      else if \<not> comparisonPerformed s user1 user2 then Inl (NotFound ComparisonRecord)
      else Inr (comparisonResults s user1 user2))"

definition hasComparison :: "contract \<Rightarrow> address \<Rightarrow> address \<Rightarrow> bool" where
  "hasComparison s user1 user2 = comparisonPerformed s user1 user2"

definition updateSalary ::
  "env \<Rightarrow> contract \<Rightarrow> address \<Rightarrow> externalEuint32 \<Rightarrow> bytes \<Rightarrow> error + contract" where
  "updateSalary e s sender inputEuint32 inputProof =
     (if \<not> hasSalary s sender then Inl (NotFound CallerValue)
      else case FHE_fromExternal e inputEuint32 inputProof of
        None \<Rightarrow> Inl InvalidCiphertext
      | Some encryptedSalary \<Rightarrow>
          Inr (emit (SalaryUpdated sender (block_timestamp e))
                 (storeSalary e s sender encryptedSalary)))"

text \<open>
  The inner loop of \<^verbatim>\<open>batchCompareSalaries\<close>:
  \<^verbatim>\<open>for (j = 0; j < i; j++) require(otherUsers[j] != otherUser, ...)\<close>.
  It is only entered with \<open>i < length otherUsers\<close>, so every read is in range.
\<close>

function duplicateScan :: "address list \<Rightarrow> address \<Rightarrow> nat \<Rightarrow> nat \<Rightarrow> error + unit" where
  "duplicateScan otherUsers otherUser i j =
     (if j < i then
        (if otherUsers ! j = otherUser then Inl DuplicateInBatch
         else duplicateScan otherUsers otherUser i (Suc j))
      else Inr ())"
  by pat_completeness auto
termination
  by (relation "measure (\<lambda>(otherUsers, otherUser, i, j). i - j)") auto

text \<open>
  The outer loop, from index \<open>i\<close> on. The counter is a \<^verbatim>\<open>uint256\<close> bounded by the length
  of the array, which is at most 10 when the loop is entered, so it never wraps.
\<close>

function batchLoop :: "env \<Rightarrow> contract \<Rightarrow> address \<Rightarrow> address list \<Rightarrow> nat \<Rightarrow> error + contract" where
  "batchLoop e s sender otherUsers i =
     (if i < length otherUsers then
        (let otherUser = otherUsers ! i in
         if \<not> hasSalary s otherUser then Inl (NotFound OtherValue)
         else if sender = otherUser then Inl SelfComparison
         else if comparisonPerformed s sender otherUser
           then batchLoop e s sender otherUsers (Suc i)
         else case duplicateScan otherUsers otherUser i 0 of
             Inl err \<Rightarrow> Inl err
           | Inr _ \<Rightarrow>
               batchLoop e (performComparison e s sender otherUser) sender otherUsers (Suc i))
      else Inr s)"
  by pat_completeness auto
termination
  by (relation "measure (\<lambda>(e, s, sender, otherUsers, i). length otherUsers - i)") auto

declare duplicateScan.simps [simp del]
declare batchLoop.simps [simp del]

definition batchCompareSalaries ::
  "env \<Rightarrow> contract \<Rightarrow> address \<Rightarrow> address list \<Rightarrow> error + contract" where
  "batchCompareSalaries e s sender otherUsers =
     (if \<not> hasSalary s sender then Inl (NotFound CallerValue)
      else if \<not> length otherUsers > 0 then Inl EmptyBatch
      else if \<not> length otherUsers \<le> MAX_BATCH_SIZE then Inl BatchTooLarge
      else batchLoop e s sender otherUsers 0)"

subsection \<open>Transactions\<close>

text \<open>
  The calls an account can make: the external functions and the getters the compiler
  generates for the \<^verbatim>\<open>public\<close> members \<^verbatim>\<open>hasSalary\<close> and \<^verbatim>\<open>VERSION\<close>.
\<close>

datatype call =
    GetContractInfo
  | SubmitSalary externalEuint32 bytes
  | GetMySalary
  | CompareSalaries address
  | GetComparisonResult address address
  | HasComparison address address
  | UpdateSalary externalEuint32 bytes
  | BatchCompareSalaries "address list"
  | HasSalary address
  | Version

datatype retval =
    NoValue
  | Handle bytes32
  | Flag bool
  | Text string
  | Info string uint256 uint256

fun noValue :: "error + contract \<Rightarrow> error + retval \<times> contract" where
  "noValue (Inl err) = Inl err"
| "noValue (Inr s') = Inr (NoValue, s')"

fun viewed :: "contract \<Rightarrow> ('a \<Rightarrow> retval) \<Rightarrow> error + 'a \<Rightarrow> error + retval \<times> contract" where
  "viewed s f (Inl err) = Inl err"
| "viewed s f (Inr v) = Inr (f v, s)"

fun execute :: "env \<Rightarrow> contract \<Rightarrow> address \<Rightarrow> call \<Rightarrow> error + retval \<times> contract" where
  "execute e s sender GetContractInfo =
     (case getContractInfo s of (v, u, c) \<Rightarrow> Inr (Info v u c, s))"
| "execute e s sender (SubmitSalary inputEuint32 inputProof) =
     noValue (submitSalary e s sender inputEuint32 inputProof)"
| "execute e s sender GetMySalary = viewed s Handle (getMySalary s sender)"
| "execute e s sender (CompareSalaries otherUser) =
     noValue (compareSalaries e s sender otherUser)"
| "execute e s sender (GetComparisonResult user1 user2) =
     viewed s Handle (getComparisonResult s sender user1 user2)"
| "execute e s sender (HasComparison user1 user2) =
     Inr (Flag (hasComparison s user1 user2), s)"
| "execute e s sender (UpdateSalary inputEuint32 inputProof) =
     noValue (updateSalary e s sender inputEuint32 inputProof)"
| "execute e s sender (BatchCompareSalaries otherUsers) =
     noValue (batchCompareSalaries e s sender otherUsers)"
| "execute e s sender (HasSalary user) = Inr (Flag (hasSalary s user), s)"
| "execute e s sender Version = Inr (Text VERSION, s)"

text \<open>
  A transaction runs one call. When the call reverts, the chain discards every change the
  call has made (storage, grants and events alike) and the state is the one before the
  call; otherwise it is the state the call returns. The first component is what the
  sender gets back: the reason of the revert or the value returned. Gas is not modelled.
\<close>

definition transact ::
  "env \<Rightarrow> contract \<Rightarrow> address \<Rightarrow> call \<Rightarrow> (error + retval) \<times> contract" where
  "transact e s sender c =
     (case execute e s sender c of
        Inl err \<Rightarrow> (Inl err, s)
      | Inr (v, s') \<Rightarrow> (Inr v, s'))"

text \<open>The storage of a freshly deployed contract: every mapping reads zero.\<close>

definition deployed :: contract where
  "deployed =
     \<lparr>salaries = (\<lambda>_. 0), hasSalary = (\<lambda>_. False),
      comparisonResults = (\<lambda>_ _. 0), comparisonPerformed = (\<lambda>_ _. False),
      acl = {}, events = []\<rparr>"

text \<open>
  The states the contract at address \<open>this\<close> can be in: the deployed one, and every state
  a transaction leaves behind, whoever sends it and whatever the library computes.
\<close>

inductive reachable :: "address \<Rightarrow> contract \<Rightarrow> bool" for this :: address where
  reachable_deployed: "reachable this deployed"
| reachable_transact:
    "reachable this s \<Longrightarrow> this_address e = this \<Longrightarrow>
     reachable this (snd (transact e s sender c))"

text \<open>A sequence of transactions, each with its own environment and sender.\<close>

fun run :: "contract \<Rightarrow> (env \<times> address \<times> call) list \<Rightarrow> contract" where
  "run s [] = s"
| "run s ((e, sender, c) # txs) = run (snd (transact e s sender c)) txs"

text \<open>
  The grants every stored handle carries: a stored salary is readable by its owner and by
  the contract, a stored comparison result by the two accounts of the pair and by the
  contract.
\<close>

definition grantsInvariant :: "address \<Rightarrow> contract \<Rightarrow> bool" where
  "grantsInvariant this s \<longleftrightarrow>
     (\<forall>u. hasSalary s u \<longrightarrow>
        (salaries s u, u) \<in> acl s \<and> (salaries s u, this) \<in> acl s) \<and>
     (\<forall>a b. comparisonPerformed s a b \<longrightarrow>
        (comparisonResults s a b, a) \<in> acl s \<and>
        (comparisonResults s a b, b) \<in> acl s \<and>
        (comparisonResults s a b, this) \<in> acl s)"

subsection \<open>Example states\<close>

text \<open>
  A concrete environment and a few states built from the deployed contract by
  transactions, for the instances the theorems below are checked on. The example library
  rejects an empty proof and computes the handle of a comparison from its operands.
\<close>

abbreviation alice :: address where "alice \<equiv> 1"
abbreviation bob :: address where "bob \<equiv> 2"
abbreviation carol :: address where "carol \<equiv> 3"
abbreviation dave :: address where "dave \<equiv> 4"

definition example_env :: env where
  "example_env =
     \<lparr>this_address = 1000, block_timestamp = 1700000000,
      FHE_fromExternal = (\<lambda>h p. if p = [] then None else Some h),
      FHE_gt = (\<lambda>x y. 2 * x + y)\<rparr>"

definition one_salary :: contract where
  "one_salary = run deployed [(example_env, alice, SubmitSalary 5000 [1])]"

definition three_salaries :: contract where
  "three_salaries =
     run one_salary
       [(example_env, bob, SubmitSalary 6000 [1]),
        (example_env, carol, SubmitSalary 7000 [1])]"

definition bob_asked :: contract where
  "bob_asked = run three_salaries [(example_env, bob, CompareSalaries alice)]"

definition eleven_salaries :: contract where
  "eleven_salaries =
     run deployed
       (map (\<lambda>a. (example_env, a, SubmitSalary 4200 [1])) [1, 2, 3, 4, 5, 6, 7, 8, 9, 10, 11])"

section \<open>What the building blocks change\<close>

lemma emit_fields [simp]:
  "salaries (emit ev s) = salaries s"
  "hasSalary (emit ev s) = hasSalary s"
  "comparisonResults (emit ev s) = comparisonResults s"
  "comparisonPerformed (emit ev s) = comparisonPerformed s"
  "acl (emit ev s) = acl s"
  by (simp_all add: emit_def)

lemma storeSalary_fields [simp]:
  "salaries (storeSalary e s a h) = (salaries s)(a := h)"
  "hasSalary (storeSalary e s a h) = (hasSalary s)(a := True)"
  "comparisonResults (storeSalary e s a h) = comparisonResults s"
  "comparisonPerformed (storeSalary e s a h) = comparisonPerformed s"
  "acl (storeSalary e s a h) = insert (h, a) (insert (h, this_address e) (acl s))"
  by (simp_all add: storeSalary_def FHE_allowThis_def FHE_allow_def Let_def)

lemma performComparison_fields [simp]:
  "salaries (performComparison e s a b) = salaries s"
  "hasSalary (performComparison e s a b) = hasSalary s"
  "comparisonResults (performComparison e s a b) =
     (comparisonResults s)
       (a := (comparisonResults s a)(b := FHE_gt e (salaries s a) (salaries s b)))"
  "comparisonPerformed (performComparison e s a b) =
     (comparisonPerformed s)(a := (comparisonPerformed s a)(b := True))"
  "acl (performComparison e s a b) =
     insert (FHE_gt e (salaries s a) (salaries s b), b)
       (insert (FHE_gt e (salaries s a) (salaries s b), a)
          (insert (FHE_gt e (salaries s a) (salaries s b), this_address e) (acl s)))"
  by (simp_all add: performComparison_def FHE_allowThis_def FHE_allow_def Let_def)

lemma noValue_Inr [simp]: "noValue r = Inr (v, s') \<longleftrightarrow> v = NoValue \<and> r = Inr s'"
  by (cases r) auto

lemma noValue_Inl [simp]: "noValue r = Inl err \<longleftrightarrow> r = Inl err"
  by (cases r) auto

lemma viewed_Inr [simp]:
  "viewed s f r = Inr (v, s') \<longleftrightarrow> s' = s \<and> (\<exists>x. r = Inr x \<and> v = f x)"
  by (cases r) auto

section \<open>The loops of the batch\<close>

text \<open>One round of the outer loop, for an entry that passes the two checks.\<close>

lemma batchLoop_end: "\<not> i < length os \<Longrightarrow> batchLoop e s sender os i = Inr s"
  by (subst batchLoop.simps) simp

lemma batchLoop_round:
  "i < length os \<Longrightarrow> hasSalary s (os ! i) \<Longrightarrow> sender \<noteq> os ! i \<Longrightarrow>
   batchLoop e s sender os i =
     (if comparisonPerformed s sender (os ! i) then batchLoop e s sender os (Suc i)
      else case duplicateScan os (os ! i) i 0 of
          Inl err \<Rightarrow> Inl err
        | Inr _ \<Rightarrow> batchLoop e (performComparison e s sender (os ! i)) sender os (Suc i))"
  by (subst batchLoop.simps) (simp add: Let_def)

lemma batchLoop_rejects:
  "i < length os \<Longrightarrow> \<not> (hasSalary s (os ! i) \<and> sender \<noteq> os ! i) \<Longrightarrow>
   batchLoop e s sender os i =
     (if \<not> hasSalary s (os ! i) then Inl (NotFound OtherValue) else Inl SelfComparison)"
  by (subst batchLoop.simps) (auto simp: Let_def)

lemma duplicateScan_passes:
  "\<forall>k. j \<le> k \<and> k < i \<longrightarrow> os ! k \<noteq> x \<Longrightarrow> duplicateScan os x i j = Inr ()"
proof (induction os x i j rule: duplicateScan.induct)
  case (1 os x i j)
  show ?case
  proof (cases "j < i")
    case True
    with "1.prems" have ne: "os ! j \<noteq> x" by simp
    from "1.prems" have "\<forall>k. Suc j \<le> k \<and> k < i \<longrightarrow> os ! k \<noteq> x" by simp
    with "1.IH" True ne have "duplicateScan os x i (Suc j) = Inr ()" by simp
    with True ne show ?thesis by (subst duplicateScan.simps) simp
  next
    case False
    then show ?thesis by (subst duplicateScan.simps) simp
  qed
qed

text \<open>
  The loop keeps every entry before \<open>i\<close> marked as compared: an entry is either skipped
  because it is marked, or marked by the round. So an entry that reaches the scan is not
  marked, differs from all the entries before it, and the scan passes.
\<close>

lemma duplicateScan_after_skip:
  assumes "\<forall>k<i. comparisonPerformed s sender (os ! k)"
    and "\<not> comparisonPerformed s sender x"
  shows "duplicateScan os x i 0 = Inr ()"
proof (rule duplicateScan_passes)
  show "\<forall>k. 0 \<le> k \<and> k < i \<longrightarrow> os ! k \<noteq> x" using assms by auto
qed

lemma marked_after_skip:
  "\<forall>k<i. comparisonPerformed s sender (os ! k) \<Longrightarrow> comparisonPerformed s sender (os ! i) \<Longrightarrow>
   \<forall>k<Suc i. comparisonPerformed s sender (os ! k)"
  by (auto simp: less_Suc_eq)

lemma marked_after_round:
  "\<forall>k<i. comparisonPerformed s sender (os ! k) \<Longrightarrow>
   \<forall>k<Suc i. comparisonPerformed (performComparison e s sender (os ! i)) sender (os ! k)"
  by (auto simp: less_Suc_eq)

lemma batchLoop_round_marked:
  assumes "\<forall>k<i. comparisonPerformed s sender (os ! k)"
    and "i < length os" and "hasSalary s (os ! i)" and "sender \<noteq> os ! i"
  shows "batchLoop e s sender os i =
     (if comparisonPerformed s sender (os ! i) then batchLoop e s sender os (Suc i)
      else batchLoop e (performComparison e s sender (os ! i)) sender os (Suc i))"
proof (cases "comparisonPerformed s sender (os ! i)")
  case True
  with assms show ?thesis by (simp add: batchLoop_round)
next
  case False
  with assms(1) have "duplicateScan os (os ! i) i 0 = Inr ()"
    by (rule duplicateScan_after_skip)
  with assms False show ?thesis by (simp add: batchLoop_round)
qed

text \<open>
  A property of the state that every comparison of the batch keeps is kept by a loop that
  returns.
\<close>

lemma batchLoop_preserves:
  assumes "batchLoop e s sender os i = Inr s'" and "P s"
    and "\<And>t x. P t \<Longrightarrow> x \<in> set os \<Longrightarrow> hasSalary t x \<Longrightarrow> sender \<noteq> x \<Longrightarrow>
           \<not> comparisonPerformed t sender x \<Longrightarrow> P (performComparison e t sender x)"
  shows "P s'"
  using assms
proof (induction e s sender os i rule: batchLoop.induct)
  case (1 e s sender os i)
  show ?case
  proof (cases "i < length os")
    case False
    with "1.prems"(1,2) show ?thesis by (simp add: batchLoop_end)
  next
    case True
    let ?x = "os ! i"
    have valid: "hasSalary s ?x \<and> sender \<noteq> ?x"
    proof (rule ccontr)
      assume "\<not> (hasSalary s ?x \<and> sender \<noteq> ?x)"
      from batchLoop_rejects[OF True this] "1.prems"(1) show False
        by (simp split: if_splits)
    qed
    show ?thesis
    proof (cases "comparisonPerformed s sender ?x")
      case skip: True
      with "1.prems"(1) True valid have rest: "batchLoop e s sender os (Suc i) = Inr s'"
        by (simp add: batchLoop_round)
      from valid show ?thesis
        by (intro "1.IH"(1)[OF True refl _ _ skip rest "1.prems"(2)] "1.prems"(3)) simp_all
    next
      case fresh: False
      let ?s = "performComparison e s sender ?x"
      from "1.prems"(1) True valid fresh
      have "(case duplicateScan os ?x i 0 of Inl err \<Rightarrow> Inl err
             | Inr _ \<Rightarrow> batchLoop e ?s sender os (Suc i)) = Inr s'"
        by (simp add: batchLoop_round)
      then have scan: "duplicateScan os ?x i 0 = Inr ()"
        and rest: "batchLoop e ?s sender os (Suc i) = Inr s'"
        by (auto split: sum.splits)
      from True valid fresh have now: "P ?s"
        by (intro "1.prems"(3) "1.prems"(2)) simp_all
      from valid show ?thesis
        by (intro "1.IH"(2)[OF True refl _ _ fresh scan rest now] "1.prems"(3)) simp_all
    qed
  qed
qed

lemma batchLoop_values:
  assumes "batchLoop e s sender os i = Inr s'"
  shows "hasSalary s' = hasSalary s \<and> salaries s' = salaries s"
  using assms by (rule batchLoop_preserves) simp_all

lemma batchLoop_acl:
  assumes "batchLoop e s sender os i = Inr s'"
  shows "acl s \<subseteq> acl s'"
  using assms by (rule batchLoop_preserves) auto

lemma batchLoop_keeps_records:
  assumes "batchLoop e s sender os i = Inr s'" and "comparisonPerformed s a b"
  shows "comparisonPerformed s' a b \<and> comparisonResults s' a b = comparisonResults s a b"
  using assms(1)
proof (rule batchLoop_preserves)
  show "comparisonPerformed s a b \<and> comparisonResults s a b = comparisonResults s a b"
    using assms(2) by simp
next
  fix t :: contract and x
  assume "comparisonPerformed t a b \<and> comparisonResults t a b = comparisonResults s a b"
    and "\<not> comparisonPerformed t sender x"
  then show "comparisonPerformed (performComparison e t sender x) a b \<and>
     comparisonResults (performComparison e t sender x) a b = comparisonResults s a b"
    by auto
qed

lemma batchLoop_new_records:
  assumes "batchLoop e s sender os i = Inr s'"
    and "\<not> comparisonPerformed s a b" and "comparisonPerformed s' a b"
  shows "a = sender \<and> b \<in> set os \<and> a \<noteq> b \<and> hasSalary s b"
proof -
  let ?P = "\<lambda>t. hasSalary t = hasSalary s \<and>
     (\<forall>a b. comparisonPerformed t a b \<longrightarrow>
        comparisonPerformed s a b \<or> (a = sender \<and> b \<in> set os \<and> a \<noteq> b \<and> hasSalary s b))"
  from assms(1) have "?P s'"
    by (rule batchLoop_preserves) auto
  with assms(2,3) show ?thesis by blast
qed

lemma grantsInvariant_performComparison:
  "this_address e = this \<Longrightarrow> grantsInvariant this s \<Longrightarrow>
   grantsInvariant this (performComparison e s a b)"
  by (simp add: grantsInvariant_def)

lemma grantsInvariant_storeSalary:
  "this_address e = this \<Longrightarrow> grantsInvariant this s \<Longrightarrow>
   grantsInvariant this (storeSalary e s a h)"
  by (simp add: grantsInvariant_def)

lemma grantsInvariant_emit [simp]: "grantsInvariant this (emit ev s) = grantsInvariant this s"
  by (simp add: grantsInvariant_def)

lemma batchLoop_grantsInvariant:
  assumes "batchLoop e s sender os i = Inr s'"
    and "this_address e = this" and "grantsInvariant this s"
  shows "grantsInvariant this s'"
  using assms(1,3) by (rule batchLoop_preserves) (simp add: assms(2) grantsInvariant_performComparison)

text \<open>
  With every entry before \<open>i\<close> marked, the loop from \<open>i\<close> on never reverts with
  DuplicateInBatch; it returns when all remaining entries pass the two checks; and it
  reverts with NotFound at the first remaining entry without a salary.
\<close>

lemma batchLoop_no_duplicate_error:
  "\<forall>k<i. comparisonPerformed s sender (os ! k) \<Longrightarrow>
   batchLoop e s sender os i \<noteq> Inl DuplicateInBatch"
proof (induction e s sender os i rule: batchLoop.induct)
  case (1 e s sender os i)
  show ?case
  proof (cases "i < length os")
    case False
    then show ?thesis by (simp add: batchLoop_end)
  next
    case True
    let ?x = "os ! i"
    show ?thesis
    proof (cases "hasSalary s ?x \<and> sender \<noteq> ?x")
      case False
      with True show ?thesis by (simp add: batchLoop_rejects)
    next
      case valid: True
      then have unfold: "batchLoop e s sender os i =
          (if comparisonPerformed s sender ?x then batchLoop e s sender os (Suc i)
           else batchLoop e (performComparison e s sender ?x) sender os (Suc i))"
        using "1.prems" True by (simp add: batchLoop_round_marked)
      show ?thesis
      proof (cases "comparisonPerformed s sender ?x")
        case skip: True
        from "1.prems" skip have "\<forall>k<Suc i. comparisonPerformed s sender (os ! k)"
          by (rule marked_after_skip)
        from "1.IH"(1)[OF True refl _ _ skip this] valid skip unfold show ?thesis by simp
      next
        case fresh: False
        from "1.prems" fresh have scan: "duplicateScan os ?x i 0 = Inr ()"
          by (rule duplicateScan_after_skip)
        from "1.prems"
        have "\<forall>k<Suc i. comparisonPerformed (performComparison e s sender ?x) sender (os ! k)"
          by (rule marked_after_round)
        from "1.IH"(2)[OF True refl _ _ fresh scan this] valid fresh unfold show ?thesis by simp
      qed
    qed
  qed
qed

lemma batchLoop_succeeds:
  assumes "\<forall>k<i. comparisonPerformed s sender (os ! k)"
    and "\<forall>k. i \<le> k \<and> k < length os \<longrightarrow> hasSalary s (os ! k) \<and> os ! k \<noteq> sender"
    and "i \<le> length os"
  shows "\<exists>s'. batchLoop e s sender os i = Inr s' \<and>
           (\<forall>k<length os. comparisonPerformed s' sender (os ! k))"
  using assms
proof (induction e s sender os i rule: batchLoop.induct)
  case (1 e s sender os i)
  show ?case
  proof (cases "i < length os")
    case False
    with "1.prems" have "i = length os" by simp
    with "1.prems"(1) show ?thesis by (simp add: batchLoop_end)
  next
    case True
    let ?x = "os ! i"
    from "1.prems"(2) True have valid: "hasSalary s ?x \<and> sender \<noteq> ?x" by auto
    then have unfold: "batchLoop e s sender os i =
        (if comparisonPerformed s sender ?x then batchLoop e s sender os (Suc i)
         else batchLoop e (performComparison e s sender ?x) sender os (Suc i))"
      using "1.prems"(1) True by (simp add: batchLoop_round_marked)
    from True have le: "Suc i \<le> length os" by simp
    show ?thesis
    proof (cases "comparisonPerformed s sender ?x")
      case skip: True
      from "1.prems"(1) skip have a: "\<forall>k<Suc i. comparisonPerformed s sender (os ! k)"
        by (rule marked_after_skip)
      have b: "\<forall>k. Suc i \<le> k \<and> k < length os \<longrightarrow> hasSalary s (os ! k) \<and> os ! k \<noteq> sender"
        using "1.prems"(2) by auto
      from "1.IH"(1)[OF True refl _ _ skip a b le] valid skip unfold show ?thesis by simp
    next
      case fresh: False
      from "1.prems"(1) fresh have scan: "duplicateScan os ?x i 0 = Inr ()"
        by (rule duplicateScan_after_skip)
      let ?s = "performComparison e s sender ?x"
      from "1.prems"(1) have a: "\<forall>k<Suc i. comparisonPerformed ?s sender (os ! k)"
        by (rule marked_after_round)
      have b: "\<forall>k. Suc i \<le> k \<and> k < length os \<longrightarrow> hasSalary ?s (os ! k) \<and> os ! k \<noteq> sender"
        using "1.prems"(2) by auto
      from "1.IH"(2)[OF True refl _ _ fresh scan a b le] valid fresh unfold show ?thesis by simp
    qed
  qed
qed

lemma batchLoop_missing:
  assumes "\<forall>j<i. comparisonPerformed s sender (os ! j)"
    and "i \<le> k" and "k < length os" and "\<not> hasSalary s (os ! k)"
    and "\<forall>j. i \<le> j \<and> j < k \<longrightarrow> hasSalary s (os ! j) \<and> os ! j \<noteq> sender"
  shows "batchLoop e s sender os i = Inl (NotFound OtherValue)"
  using assms
proof (induction e s sender os i rule: batchLoop.induct)
  case (1 e s sender os i)
  from "1.prems" have len: "i < length os" by simp
  let ?x = "os ! i"
  show ?case
  proof (cases "i = k")
    case True
    with "1.prems"(4) len show ?thesis by (simp add: batchLoop_rejects)
  next
    case False
    with "1.prems"(2,5) have valid: "hasSalary s ?x \<and> sender \<noteq> ?x" and next_le: "Suc i \<le> k"
      by auto
    then have unfold: "batchLoop e s sender os i =
        (if comparisonPerformed s sender ?x then batchLoop e s sender os (Suc i)
         else batchLoop e (performComparison e s sender ?x) sender os (Suc i))"
      using "1.prems"(1) len by (simp add: batchLoop_round_marked)
    show ?thesis
    proof (cases "comparisonPerformed s sender ?x")
      case skip: True
      from "1.prems"(1) skip have a: "\<forall>j<Suc i. comparisonPerformed s sender (os ! j)"
        by (rule marked_after_skip)
      have b: "\<forall>j. Suc i \<le> j \<and> j < k \<longrightarrow> hasSalary s (os ! j) \<and> os ! j \<noteq> sender"
        using "1.prems"(5) by auto
      from "1.IH"(1)[OF len refl _ _ skip a next_le "1.prems"(3,4) b] valid skip unfold
      show ?thesis by simp
    next
      case fresh: False
      from "1.prems"(1) fresh have scan: "duplicateScan os ?x i 0 = Inr ()"
        by (rule duplicateScan_after_skip)
      let ?s = "performComparison e s sender ?x"
      from "1.prems"(1) have a: "\<forall>j<Suc i. comparisonPerformed ?s sender (os ! j)"
        by (rule marked_after_round)
      have b: "\<forall>j. Suc i \<le> j \<and> j < k \<longrightarrow> hasSalary ?s (os ! j) \<and> os ! j \<noteq> sender"
        using "1.prems"(5) by auto
      have c: "\<not> hasSalary ?s (os ! k)" using "1.prems"(4) by simp
      from "1.IH"(2)[OF len refl _ _ fresh scan a next_le "1.prems"(3) c b] valid fresh unfold
      show ?thesis by simp
    qed
  qed
qed

text \<open>
  So the \<^verbatim>\<open>require\<close> of the inner loop can never fail: whatever the storage, the
  sender and the array, \<^verbatim>\<open>batchCompareSalaries\<close> does not revert with
  "Duplicate addresses not allowed in batch comparison".
\<close>

lemma batchCompareSalaries_no_duplicate_error:
  "batchCompareSalaries e s sender os \<noteq> Inl DuplicateInBatch"
  using batchLoop_no_duplicate_error[of 0 s sender os e]
  by (simp add: batchCompareSalaries_def)

section \<open>What a transaction changes\<close>

lemma execute_hasSalary:
  "execute e s sender c = Inr (v, s') \<Longrightarrow> hasSalary s a \<Longrightarrow> hasSalary s' a"
  by (cases c)
    (auto simp: submitSalary_def updateSalary_def compareSalaries_def
       batchCompareSalaries_def getContractInfo_def
       split: if_splits option.splits dest: batchLoop_values)

lemma execute_keeps_records:
  "execute e s sender c = Inr (v, s') \<Longrightarrow> comparisonPerformed s a b \<Longrightarrow>
   comparisonPerformed s' a b \<and> comparisonResults s' a b = comparisonResults s a b"
  by (cases c)
    (auto simp: submitSalary_def updateSalary_def compareSalaries_def
       batchCompareSalaries_def getContractInfo_def
       split: if_splits option.splits dest: batchLoop_keeps_records)

lemma execute_acl: "execute e s sender c = Inr (v, s') \<Longrightarrow> acl s \<subseteq> acl s'"
  by (cases c)
    (auto simp: submitSalary_def updateSalary_def compareSalaries_def
       batchCompareSalaries_def getContractInfo_def
       split: if_splits option.splits dest: batchLoop_acl)

lemma execute_grantsInvariant:
  "execute e s sender c = Inr (v, s') \<Longrightarrow> this_address e = this \<Longrightarrow>
   grantsInvariant this s \<Longrightarrow> grantsInvariant this s'"
  by (cases c)
    (auto simp: submitSalary_def updateSalary_def compareSalaries_def
       batchCompareSalaries_def getContractInfo_def
       grantsInvariant_storeSalary grantsInvariant_performComparison
       split: if_splits option.splits dest: batchLoop_grantsInvariant)

lemma execute_new_record:
  assumes "execute e s sender c = Inr (v, s')"
    and "\<not> comparisonPerformed s a b" and "comparisonPerformed s' a b"
  shows "sender = a \<and>
     (c = CompareSalaries b \<or> (\<exists>os. c = BatchCompareSalaries os \<and> b \<in> set os)) \<and>
     v = NoValue \<and> a \<noteq> b \<and> hasSalary s a \<and> hasSalary s b"
proof (cases c)
  case (CompareSalaries x)
  with assms show ?thesis
    by (auto simp: compareSalaries_def split: if_splits)
next
  case (BatchCompareSalaries os)
  with assms(1) have guard: "hasSalary s sender" and loop: "batchLoop e s sender os 0 = Inr s'"
    and v: "v = NoValue"
    by (auto simp: batchCompareSalaries_def split: if_splits)
  from batchLoop_new_records[OF loop assms(2,3)] guard v BatchCompareSalaries
  show ?thesis by auto
qed (use assms in \<open>auto simp: submitSalary_def updateSalary_def getContractInfo_def
       split: if_splits option.splits\<close>)

lemma transact_cases:
  obtains (reverted) err where "execute e s sender c = Inl err"
      and "transact e s sender c = (Inl err, s)"
  | (returned) v s' where "execute e s sender c = Inr (v, s')"
      and "transact e s sender c = (Inr v, s')"
  by (cases "execute e s sender c") (auto simp: transact_def)

lemma run_hasSalary: "hasSalary s a \<Longrightarrow> hasSalary (run s txs) a"
proof (induction txs arbitrary: s)
  case Nil
  then show ?case by simp
next
  case (Cons tx txs)
  obtain e sender c where tx: "tx = (e, sender, c)" by (cases tx)
  have "hasSalary (snd (transact e s sender c)) a"
    using Cons.prems by (cases rule: transact_cases[of e s sender c]) (auto dest: execute_hasSalary)
  then show ?case using Cons.IH tx by simp
qed

lemma run_keeps_records:
  "comparisonPerformed s a b \<Longrightarrow>
   comparisonPerformed (run s txs) a b \<and> comparisonResults (run s txs) a b = comparisonResults s a b"
proof (induction txs arbitrary: s)
  case Nil
  then show ?case by simp
next
  case (Cons tx txs)
  obtain e sender c where tx: "tx = (e, sender, c)" by (cases tx)
  let ?s = "snd (transact e s sender c)"
  have "comparisonPerformed ?s a b \<and> comparisonResults ?s a b = comparisonResults s a b"
    using Cons.prems
    by (cases rule: transact_cases[of e s sender c]) (auto dest: execute_keeps_records)
  then show ?case using Cons.IH[of ?s] tx by simp
qed

lemma run_acl: "acl s \<subseteq> acl (run s txs)"
proof (induction txs arbitrary: s)
  case Nil
  then show ?case by simp
next
  case (Cons tx txs)
  obtain e sender c where tx: "tx = (e, sender, c)" by (cases tx)
  have "acl s \<subseteq> acl (snd (transact e s sender c))"
    by (cases rule: transact_cases[of e s sender c]) (auto dest: execute_acl)
  then show ?case using Cons.IH[of "snd (transact e s sender c)"] tx by auto
qed

lemma reachable_grantsInvariant: "reachable this s \<Longrightarrow> grantsInvariant this s"
proof (induction rule: reachable.induct)
  case reachable_deployed
  show ?case by (simp add: grantsInvariant_def deployed_def)
next
  case (reachable_transact s e sender c)
  then show ?case
    by (cases rule: transact_cases[of e s sender c]) (auto dest: execute_grantsInvariant)
qed

lemma reachable_run:
  "reachable this s \<Longrightarrow> \<forall>tx\<in>set txs. this_address (fst tx) = this \<Longrightarrow>
   reachable this (run s txs)"
proof (induction txs arbitrary: s)
  case Nil
  then show ?case by simp
next
  case (Cons tx txs)
  obtain e sender c where tx: "tx = (e, sender, c)" by (cases tx)
  with Cons.prems have "reachable this (snd (transact e s sender c))"
    by (intro reachable_transact) auto
  with Cons.IH Cons.prems tx show ?case by simp
qed

section \<open>Properties\<close>

lemmas eval_defs =
  one_salary_def three_salaries_def bob_asked_def
  example_env_def deployed_def transact_def submitSalary_def updateSalary_def
  compareSalaries_def batchCompareSalaries_def getMySalary_def getComparisonResult_def
  hasComparison_def getContractInfo_def VERSION_def MAX_BATCH_SIZE_def storeSalary_def
  performComparison_def FHE_allow_def FHE_allowThis_def emit_def Let_def
  batchLoop.simps duplicateScan.simps

subsection \<open>A batch that fails part of the way\<close>

text \<open>
  C1, as the specification states it, does not hold: with salaries for alice, bob and
  carol and none for dave, the batch of alice over bob, carol and dave reverts with
  NotFound, and after the revert neither the pair (alice, bob) nor the pair
  (alice, carol) is marked as compared.
\<close>

theorem batch_partial_progress_counterexample:
  "hasSalary three_salaries alice \<and> hasSalary three_salaries bob \<and>
   hasSalary three_salaries carol \<and> \<not> hasSalary three_salaries dave \<and>
   fst (transact example_env three_salaries alice (BatchCompareSalaries [bob, carol, dave]))
     = Inl (NotFound OtherValue) \<and>
   \<not> hasComparison
       (snd (transact example_env three_salaries alice (BatchCompareSalaries [bob, carol, dave])))
       alice bob \<and>
   \<not> hasComparison
       (snd (transact example_env three_salaries alice (BatchCompareSalaries [bob, carol, dave])))
       alice carol"
  by (simp add: eval_defs)

text \<open>
  C1, amended. For every caller \<open>a\<close> with a salary and every batch \<open>[b, c, d]\<close> where
  \<open>b\<close> and \<open>c\<close> have salaries and differ from \<open>a\<close>, and \<open>d\<close> has none, the batch reverts
  with NotFound, and the revert undoes the call as a whole: the state after it is the
  state before it, so \<open>hasComparison\<close> answers for \<open>(a, b)\<close> and \<open>(a, c)\<close> what it
  answered before the call. No progress of the batch is kept.
\<close>

theorem batch_missing_entry_reverts_all:
  assumes "hasSalary s a" and "hasSalary s b" and "hasSalary s c" and "\<not> hasSalary s d"
    and "a \<noteq> b" and "a \<noteq> c"
  shows "transact e s a (BatchCompareSalaries [b, c, d]) = (Inl (NotFound OtherValue), s) \<and>
     hasComparison (snd (transact e s a (BatchCompareSalaries [b, c, d]))) a b
       = hasComparison s a b \<and>
     hasComparison (snd (transact e s a (BatchCompareSalaries [b, c, d]))) a c
       = hasComparison s a c"
proof -
  have "batchLoop e s a [b, c, d] 0 = Inl (NotFound OtherValue)"
  proof (rule batchLoop_missing[where k = 2])
    show "\<forall>j. 0 \<le> j \<and> j < 2 \<longrightarrow> hasSalary s ([b, c, d] ! j) \<and> [b, c, d] ! j \<noteq> a"
      using assms by (auto simp: less_Suc_eq numeral_2_eq_2)
  qed (use assms in simp_all)
  with assms(1) have "batchCompareSalaries e s a [b, c, d] = Inl (NotFound OtherValue)"
    by (simp add: batchCompareSalaries_def MAX_BATCH_SIZE_def)
  then show ?thesis by (simp add: transact_def)
qed

theorem batch_missing_entry_reverts_all_witness:
  "hasSalary three_salaries alice \<and> hasSalary three_salaries bob \<and>
   hasSalary three_salaries carol \<and> \<not> hasSalary three_salaries dave \<and>
   transact example_env three_salaries alice (BatchCompareSalaries [bob, carol, dave])
     = (Inl (NotFound OtherValue), three_salaries)"
proof -
  have h: "hasSalary three_salaries alice" "hasSalary three_salaries bob"
    "hasSalary three_salaries carol" "\<not> hasSalary three_salaries dave"
    "alice \<noteq> bob" "alice \<noteq> carol"
    by (simp_all add: eval_defs)
  from batch_missing_entry_reverts_all[OF h, of example_env] h show ?thesis by simp
qed

subsection \<open>A batch that names an account twice\<close>

text \<open>
  C2. The batch of alice over bob and bob, with salaries for both and no record for
  (alice, bob), does not revert: the first entry creates the record, the second entry is
  skipped because the record exists, and the scan for duplicates, which comes after the
  skip, is never reached.
\<close>

theorem batch_duplicate_accepted:
  "hasSalary three_salaries alice \<and> hasSalary three_salaries bob \<and>
   \<not> hasComparison three_salaries alice bob \<and>
   fst (transact example_env three_salaries alice (BatchCompareSalaries [bob, bob]))
     = Inr NoValue \<and>
   hasComparison
     (snd (transact example_env three_salaries alice (BatchCompareSalaries [bob, bob])))
     alice bob"
  by (simp add: eval_defs)

subsection \<open>The size of a batch\<close>

text \<open>
  C3, as the specification states it, does not hold for every caller: a caller without a
  salary gets NotFound for the empty batch, since the caller's salary is checked before
  the length of the array.
\<close>

theorem batch_empty_counterexample:
  "\<not> hasSalary deployed alice \<and>
   batchCompareSalaries example_env deployed alice [] = Inl (NotFound CallerValue) \<and>
   batchCompareSalaries example_env deployed alice [] \<noteq> Inl EmptyBatch"
  by (simp add: eval_defs)

text \<open>
  C3, amended. A caller without a salary gets NotFound, whatever the batch. For a caller
  \<open>a\<close> with a salary, the empty batch reverts with EmptyBatch, a batch of more than 10
  entries reverts with BatchTooLarge, and a batch of exactly 10 distinct accounts, all
  with salaries, none equal to \<open>a\<close> and none compared with \<open>a\<close> before, returns, with a
  record for every entry.
\<close>

theorem batch_size_bounds:
  "(\<not> hasSalary s a \<longrightarrow> batchCompareSalaries e s a os = Inl (NotFound CallerValue)) \<and>
   (hasSalary s a \<and> os = [] \<longrightarrow> batchCompareSalaries e s a os = Inl EmptyBatch) \<and>
   (hasSalary s a \<and> length os > 10 \<longrightarrow> batchCompareSalaries e s a os = Inl BatchTooLarge) \<and>
   (hasSalary s a \<and> length os = 10 \<and> distinct os \<and>
    (\<forall>x\<in>set os. hasSalary s x \<and> x \<noteq> a \<and> \<not> comparisonPerformed s a x) \<longrightarrow>
      (\<exists>s'. batchCompareSalaries e s a os = Inr s' \<and>
            (\<forall>x\<in>set os. comparisonPerformed s' a x)))"
proof (intro conjI impI)
  assume h: "hasSalary s a \<and> length os = 10 \<and> distinct os \<and>
    (\<forall>x\<in>set os. hasSalary s x \<and> x \<noteq> a \<and> \<not> comparisonPerformed s a x)"
  then have "\<forall>k. 0 \<le> k \<and> k < length os \<longrightarrow> hasSalary s (os ! k) \<and> os ! k \<noteq> a"
    by simp
  then have "\<exists>s'. batchLoop e s a os 0 = Inr s' \<and>
      (\<forall>k<length os. comparisonPerformed s' a (os ! k))"
    by (intro batchLoop_succeeds) simp_all
  then obtain s' where loop: "batchLoop e s a os 0 = Inr s'"
    and marked: "\<forall>k<length os. comparisonPerformed s' a (os ! k)"
    by blast
  from marked have "\<forall>x\<in>set os. comparisonPerformed s' a x"
    by (auto simp: in_set_conv_nth)
  moreover from h loop have "batchCompareSalaries e s a os = Inr s'"
    by (simp add: batchCompareSalaries_def MAX_BATCH_SIZE_def)
  ultimately show "\<exists>s'. batchCompareSalaries e s a os = Inr s' \<and>
      (\<forall>x\<in>set os. comparisonPerformed s' a x)"
    by blast
qed (auto simp: batchCompareSalaries_def MAX_BATCH_SIZE_def)

theorem batch_size_bounds_witness:
  "\<not> hasSalary deployed alice \<and>
   batchCompareSalaries example_env deployed alice [bob] = Inl (NotFound CallerValue) \<and>
   hasSalary eleven_salaries alice \<and>
   batchCompareSalaries example_env eleven_salaries alice [] = Inl EmptyBatch \<and>
   length [2, 3, 4, 5, 6, 7, 8, 9, 10, 11, 12 :: address] > 10 \<and>
   batchCompareSalaries example_env eleven_salaries alice [2, 3, 4, 5, 6, 7, 8, 9, 10, 11, 12]
     = Inl BatchTooLarge \<and>
   length [2, 3, 4, 5, 6, 7, 8, 9, 10, 11 :: address] = 10 \<and>
   distinct [2, 3, 4, 5, 6, 7, 8, 9, 10, 11 :: address] \<and>
   list_all
     (\<lambda>x. hasSalary eleven_salaries x \<and> x \<noteq> alice \<and>
          \<not> comparisonPerformed eleven_salaries alice x)
     [2, 3, 4, 5, 6, 7, 8, 9, 10, 11] \<and>
   (\<exists>s'. batchCompareSalaries example_env eleven_salaries alice [2, 3, 4, 5, 6, 7, 8, 9, 10, 11]
            = Inr s' \<and>
         list_all (comparisonPerformed s' alice) [2, 3, 4, 5, 6, 7, 8, 9, 10, 11])"
proof -
  have h1: "\<not> hasSalary deployed alice" by (simp add: eval_defs)
  have h2: "hasSalary eleven_salaries alice" by (simp add: eleven_salaries_def eval_defs)
  have h3: "length [2, 3, 4, 5, 6, 7, 8, 9, 10, 11, 12 :: address] > 10" by simp
  have h4: "length [2, 3, 4, 5, 6, 7, 8, 9, 10, 11 :: address] = 10" by simp
  have h5: "distinct [2, 3, 4, 5, 6, 7, 8, 9, 10, 11 :: address]" by simp
  have h6: "\<forall>x\<in>set [2, 3, 4, 5, 6, 7, 8, 9, 10, 11].
      hasSalary eleven_salaries x \<and> x \<noteq> alice \<and> \<not> comparisonPerformed eleven_salaries alice x"
    by (simp add: eleven_salaries_def eval_defs)
  from batch_size_bounds[of deployed alice example_env "[bob]"] h1
  have c1: "batchCompareSalaries example_env deployed alice [bob] = Inl (NotFound CallerValue)"
    by blast
  from batch_size_bounds[of eleven_salaries alice example_env "[]"] h2
  have c2: "batchCompareSalaries example_env eleven_salaries alice [] = Inl EmptyBatch"
    by blast
  from batch_size_bounds[of eleven_salaries alice example_env
      "[2, 3, 4, 5, 6, 7, 8, 9, 10, 11, 12]"] h2 h3
  have c3: "batchCompareSalaries example_env eleven_salaries alice
      [2, 3, 4, 5, 6, 7, 8, 9, 10, 11, 12] = Inl BatchTooLarge"
    by blast
  from batch_size_bounds[of eleven_salaries alice example_env
      "[2, 3, 4, 5, 6, 7, 8, 9, 10, 11]"] h2 h4 h5 h6
  have c4: "\<exists>s'. batchCompareSalaries example_env eleven_salaries alice
      [2, 3, 4, 5, 6, 7, 8, 9, 10, 11] = Inr s' \<and>
      (\<forall>x\<in>set [2, 3, 4, 5, 6, 7, 8, 9, 10, 11]. comparisonPerformed s' alice x)"
    by blast
  from h1 h2 h3 h4 h5 h6 c1 c2 c3 c4 show ?thesis
    unfolding list_all_iff by blast
qed

subsection \<open>Comparing two accounts\<close>

text \<open>
  C4. For accounts \<open>a\<close> and \<open>b\<close>, different, both with salaries and with no record for
  either ordered pair: \<open>compareSalaries\<close> by \<open>a\<close> on \<open>b\<close> returns and marks exactly the
  ordered pair \<open>(a, b)\<close>, not \<open>(b, a)\<close>; a second call by \<open>a\<close> on \<open>b\<close> reverts with
  AlreadyPerformed; and the call by \<open>b\<close> on \<open>a\<close> still returns and marks \<open>(b, a)\<close>
  on top.
\<close>

theorem compareSalaries_ordered_pair:
  assumes "a \<noteq> b" and "hasSalary s a" and "hasSalary s b"
    and "\<not> comparisonPerformed s a b" and "\<not> comparisonPerformed s b a"
  shows "\<exists>s1 s2.
     compareSalaries e1 s a b = Inr s1 \<and>
     comparisonPerformed s1 = (comparisonPerformed s)(a := (comparisonPerformed s a)(b := True)) \<and>
     \<not> comparisonPerformed s1 b a \<and>
     compareSalaries e2 s1 a b = Inl AlreadyPerformed \<and>
     compareSalaries e3 s1 b a = Inr s2 \<and>
     comparisonPerformed s2 = (comparisonPerformed s1)(b := (comparisonPerformed s1 b)(a := True)) \<and>
     comparisonPerformed s2 a b \<and> comparisonPerformed s2 b a"
proof -
  let ?s1 = "performComparison e1 s a b"
  let ?s2 = "performComparison e3 ?s1 b a"
  from assms have first: "compareSalaries e1 s a b = Inr ?s1"
    by (simp add: compareSalaries_def)
  have only: "comparisonPerformed ?s1 = (comparisonPerformed s)(a := (comparisonPerformed s a)(b := True))"
    by simp
  from assms have other: "\<not> comparisonPerformed ?s1 b a" by simp
  from assms have again: "compareSalaries e2 ?s1 a b = Inl AlreadyPerformed"
    by (simp add: compareSalaries_def)
  from assms have reverse: "compareSalaries e3 ?s1 b a = Inr ?s2"
    by (simp add: compareSalaries_def)
  have both: "comparisonPerformed ?s2 = (comparisonPerformed ?s1)(b := (comparisonPerformed ?s1 b)(a := True))"
    "comparisonPerformed ?s2 a b" "comparisonPerformed ?s2 b a"
    using assms by simp_all
  from first only other again reverse both show ?thesis by blast
qed

theorem compareSalaries_ordered_pair_witness:
  "alice \<noteq> bob \<and> hasSalary three_salaries alice \<and> hasSalary three_salaries bob \<and>
   \<not> comparisonPerformed three_salaries alice bob \<and>
   \<not> comparisonPerformed three_salaries bob alice \<and>
   (\<exists>s1 s2.
     compareSalaries example_env three_salaries alice bob = Inr s1 \<and>
     \<not> comparisonPerformed s1 bob alice \<and>
     compareSalaries example_env s1 alice bob = Inl AlreadyPerformed \<and>
     compareSalaries example_env s1 bob alice = Inr s2 \<and>
     comparisonPerformed s2 alice bob \<and> comparisonPerformed s2 bob alice)"
proof -
  have h: "alice \<noteq> bob" "hasSalary three_salaries alice" "hasSalary three_salaries bob"
    "\<not> comparisonPerformed three_salaries alice bob"
    "\<not> comparisonPerformed three_salaries bob alice"
    by (simp_all add: eval_defs)
  from compareSalaries_ordered_pair[OF h, of example_env example_env example_env] h
  show ?thesis by blast
qed

text \<open>
  C5. For every account and every state, comparing an account with itself reverts with
  SelfComparison, whether the account has submitted a salary or not: the check of the
  two addresses comes before the two checks of \<open>hasSalary\<close>.
\<close>

theorem compareSalaries_self:
  "compareSalaries e s a a = Inl SelfComparison"
  by (simp add: compareSalaries_def)

theorem compareSalaries_self_witness:
  "\<not> hasSalary deployed alice \<and> hasSalary one_salary alice \<and>
   compareSalaries example_env deployed alice alice = Inl SelfComparison \<and>
   compareSalaries example_env one_salary alice alice = Inl SelfComparison"
  using compareSalaries_self[of example_env deployed alice]
    compareSalaries_self[of example_env one_salary alice]
  by (simp add: one_salary_def example_env_def deployed_def transact_def submitSalary_def
      storeSalary_def FHE_allow_def FHE_allowThis_def emit_def Let_def)

subsection \<open>Reading a comparison\<close>

text \<open>
  C6. \<open>getComparisonResult\<close> reverts with Unauthorized for a sender that is neither
  \<open>user1\<close> nor \<open>user2\<close>, whether the record exists or not; for a sender that is one of
  the two it reverts with NotFound when the ordered pair \<open>(user1, user2)\<close> is not marked,
  whatever the state of \<open>(user2, user1)\<close>.
\<close>

theorem getComparisonResult_errors:
  "(sender \<noteq> user1 \<and> sender \<noteq> user2 \<longrightarrow>
      getComparisonResult s sender user1 user2 = Inl Unauthorized) \<and>
   ((sender = user1 \<or> sender = user2) \<and> \<not> comparisonPerformed s user1 user2 \<longrightarrow>
      getComparisonResult s sender user1 user2 = Inl (NotFound ComparisonRecord))"
  by (simp add: getComparisonResult_def)

theorem getComparisonResult_errors_witness:
  "comparisonPerformed bob_asked bob alice \<and> carol \<noteq> bob \<and> carol \<noteq> alice \<and>
   getComparisonResult bob_asked carol bob alice = Inl Unauthorized \<and>
   \<not> comparisonPerformed bob_asked alice bob \<and>
   getComparisonResult bob_asked alice alice bob = Inl (NotFound ComparisonRecord) \<and>
   getComparisonResult bob_asked bob alice bob = Inl (NotFound ComparisonRecord)"
proof -
  have h: "comparisonPerformed bob_asked bob alice" "carol \<noteq> bob" "carol \<noteq> alice"
    "\<not> comparisonPerformed bob_asked alice bob"
    by (simp_all add: eval_defs)
  from getComparisonResult_errors[of carol bob alice bob_asked]
    getComparisonResult_errors[of alice alice bob bob_asked]
    getComparisonResult_errors[of bob alice bob bob_asked] h
  show ?thesis by simp
qed

subsection \<open>Presence of a salary\<close>

text \<open>
  C7. Once \<open>submitSalary\<close> by \<open>a\<close> has returned, \<open>hasSalary\<close> of \<open>a\<close> is true after every
  later sequence of transactions (any calls, by any senders, returning or reverting),
  and \<open>getMySalary\<close> by \<open>a\<close> returns the stored handle.
\<close>

theorem hasSalary_permanent:
  assumes "submitSalary e s a inputEuint32 inputProof = Inr s1"
  shows "hasSalary (run s1 txs) a \<and>
     getMySalary (run s1 txs) a = Inr (salaries (run s1 txs) a)"
proof -
  from assms have "hasSalary s1 a"
    by (auto simp: submitSalary_def split: option.splits)
  then have "hasSalary (run s1 txs) a" by (rule run_hasSalary)
  then show ?thesis by (simp add: getMySalary_def)
qed

theorem hasSalary_permanent_witness:
  "submitSalary example_env deployed alice 5000 [1] = Inr one_salary \<and>
   hasSalary
     (run one_salary
        [(example_env, bob, SubmitSalary 6000 [1]),
         (example_env, alice, UpdateSalary 5500 [1]),
         (example_env, alice, UpdateSalary 5600 []),
         (example_env, alice, CompareSalaries bob),
         (example_env, alice, BatchCompareSalaries [bob, carol]),
         (example_env, bob, GetComparisonResult alice bob)])
     alice"
proof -
  have h: "submitSalary example_env deployed alice 5000 [1] = Inr one_salary"
    by (simp add: eval_defs)
  from hasSalary_permanent[OF h] h show ?thesis by blast
qed

subsection \<open>The life of a comparison record\<close>

text \<open>
  C8. An ordered pair \<open>(a, b)\<close> that is marked stays marked with the same stored result
  after every sequence of transactions, salary updates included. And a transaction that
  takes \<open>(a, b)\<close> from unmarked to marked is a returning \<open>compareSalaries\<close> on \<open>b\<close>, or a
  returning \<open>batchCompareSalaries\<close> with \<open>b\<close> in the array, sent by \<open>a\<close>, with \<open>a\<close>
  different from \<open>b\<close> and both having salaries.
\<close>

theorem comparison_record_lifecycle:
  "(comparisonPerformed s a b \<longrightarrow>
      comparisonPerformed (run s txs) a b \<and>
      comparisonResults (run s txs) a b = comparisonResults s a b) \<and>
   (\<not> comparisonPerformed s a b \<and> comparisonPerformed (snd (transact e s sender c)) a b \<longrightarrow>
      sender = a \<and>
      (c = CompareSalaries b \<or> (\<exists>os. c = BatchCompareSalaries os \<and> b \<in> set os)) \<and>
      fst (transact e s sender c) = Inr NoValue \<and>
      a \<noteq> b \<and> hasSalary s a \<and> hasSalary s b)"
proof (rule conjI; rule impI)
  assume "comparisonPerformed s a b"
  then show "comparisonPerformed (run s txs) a b \<and>
      comparisonResults (run s txs) a b = comparisonResults s a b"
    by (rule run_keeps_records)
next
  assume new: "\<not> comparisonPerformed s a b \<and>
    comparisonPerformed (snd (transact e s sender c)) a b"
  show "sender = a \<and>
      (c = CompareSalaries b \<or> (\<exists>os. c = BatchCompareSalaries os \<and> b \<in> set os)) \<and>
      fst (transact e s sender c) = Inr NoValue \<and>
      a \<noteq> b \<and> hasSalary s a \<and> hasSalary s b"
  proof (cases rule: transact_cases[of e s sender c])
    case (reverted err)
    with new show ?thesis by simp
  next
    case (returned v s')
    with new have "\<not> comparisonPerformed s a b" and "comparisonPerformed s' a b"
      by simp_all
    from execute_new_record[OF returned(1) this] returned(2) show ?thesis by simp
  qed
qed

theorem comparison_record_lifecycle_witness:
  "comparisonPerformed bob_asked bob alice \<and>
   comparisonPerformed
     (run bob_asked
        [(example_env, alice, UpdateSalary 9000 [1]),
         (example_env, bob, UpdateSalary 100 [1]),
         (example_env, bob, CompareSalaries alice),
         (example_env, bob, BatchCompareSalaries [alice, carol])])
     bob alice \<and>
   comparisonResults
     (run bob_asked
        [(example_env, alice, UpdateSalary 9000 [1]),
         (example_env, bob, UpdateSalary 100 [1]),
         (example_env, bob, CompareSalaries alice),
         (example_env, bob, BatchCompareSalaries [alice, carol])])
     bob alice = comparisonResults bob_asked bob alice \<and>
   \<not> comparisonPerformed three_salaries bob alice \<and>
   comparisonPerformed (snd (transact example_env three_salaries bob (CompareSalaries alice)))
     bob alice \<and>
   fst (transact example_env three_salaries bob (CompareSalaries alice)) = Inr NoValue \<and>
   hasSalary three_salaries bob \<and> hasSalary three_salaries alice"
proof -
  have h1: "comparisonPerformed bob_asked bob alice" by (simp add: eval_defs)
  have h2: "\<not> comparisonPerformed three_salaries bob alice" by (simp add: eval_defs)
  have h3: "comparisonPerformed
      (snd (transact example_env three_salaries bob (CompareSalaries alice))) bob alice"
    by (simp add: eval_defs)
  from comparison_record_lifecycle[of bob_asked bob alice _ example_env bob GetMySalary] h1
    comparison_record_lifecycle[of three_salaries bob alice "[]" example_env bob
      "CompareSalaries alice"] h2 h3
  show ?thesis by blast
qed

subsection \<open>Grants\<close>

text \<open>
  C9. In every state the contract can reach, the handle of every stored salary is granted
  to its owner and to the contract, and the handle of every stored comparison result is
  granted to the requester, to the target and to the contract. No sequence of
  transactions removes a grant.
\<close>

theorem grants_kept_and_complete:
  assumes "reachable this s"
  shows "grantsInvariant this s \<and> acl s \<subseteq> acl (run s txs)"
  using assms by (simp add: reachable_grantsInvariant run_acl)

theorem grants_kept_and_complete_witness:
  "reachable 1000 bob_asked \<and> grantsInvariant 1000 bob_asked \<and>
   acl bob_asked \<subseteq>
     acl (run bob_asked
            [(example_env, alice, UpdateSalary 9000 [1]),
             (example_env, alice, BatchCompareSalaries [bob, carol, dave])])"
proof -
  have "reachable 1000 deployed" by (rule reachable_deployed)
  then have "reachable 1000 one_salary"
    unfolding one_salary_def by (rule reachable_run) (simp add: example_env_def)
  then have "reachable 1000 three_salaries"
    unfolding three_salaries_def by (rule reachable_run) (simp add: example_env_def)
  then have h: "reachable 1000 bob_asked"
    unfolding bob_asked_def by (rule reachable_run) (simp add: example_env_def)
  from grants_kept_and_complete[OF h] h show ?thesis by blast
qed

subsection \<open>The statistics\<close>

text \<open>
  C10. In every state, \<open>getContractInfo\<close> returns the version "1.0.0" with 0 users and
  0 comparisons, and leaves the state as it is: the two counts are constants of the
  function, not read from the storage.
\<close>

theorem getContractInfo_placeholders:
  "getContractInfo s = (''1.0.0'', 0, 0) \<and>
   transact e s sender GetContractInfo = (Inr (Info ''1.0.0'' 0 0), s)"
  by (simp add: getContractInfo_def VERSION_def transact_def)

theorem getContractInfo_placeholders_witness:
  "hasSalary bob_asked alice \<and> hasSalary bob_asked bob \<and> hasSalary bob_asked carol \<and>
   comparisonPerformed bob_asked bob alice \<and>
   getContractInfo bob_asked = (''1.0.0'', 0, 0)"
proof -
  have h: "hasSalary bob_asked alice" "hasSalary bob_asked bob" "hasSalary bob_asked carol"
    "comparisonPerformed bob_asked bob alice"
    by (simp_all add: eval_defs)
  from getContractInfo_placeholders[of bob_asked example_env alice] h show ?thesis by blast
qed

end
